theory Spec2Isabelle
  imports Main "HOL-Library.FSet"
begin

section \<open>Connection resolver (canals/pipeline/connections.py)\<close>

subsection \<open>Types, sockets and errors\<close>

text \<open>
  Type annotations as values, with the equality Python's \<open>==\<close> gives them: \<open>typing.Any\<close>,
  \<open>type(None)\<close>, a plain class, a \<open>Literal\<close> and a \<open>Union\<close> (\<open>Optional[T]\<close> is
  \<open>Union[T, None]\<close>), both equal to another of their kind whatever the order of their
  members, and any other parametrized generic, equal to another when the origin and the
  arguments, in order, are. A descriptor stands for the object \<open>typing\<close> builds:
  \<open>type(None)\<close> is \<open>TNone\<close>, and a \<open>Union\<close> is flattened and has at least two members
  (\<open>Union[T]\<close> is \<open>T\<close> itself).
\<close>

datatype literal = LInt int | LStr string | LBool bool | LNone

datatype ty =
    TAny
  | TNone
  | TClass string
  | TLiteral "literal fset"
  | TUnion "ty fset"
  | TGeneric string "ty list"

text \<open>
  \<open>OutputSocket\<close> and \<open>InputSocket\<close> are imported from \<open>canals.pipeline.sockets\<close>; the
  resolver reads \<open>name\<close> and \<open>types\<close> of both and \<open>sender\<close> of an input socket. The
  resolver tests \<open>types\<close> for membership and compares two of them with \<open>==\<close>; it is
  taken here as a set of type descriptors.
\<close>

record OutputSocket =
  name :: string
  types :: "ty set"

record InputSocket = OutputSocket +
  sender :: "string option"

text \<open>The exceptions of the pipeline, each with the text or the name it reports.\<close>

datatype error =
    PipelineConnectError string
  | PipelineError string
  | PipelineMaxLoops string
  | PipelineRuntimeError string

subsection \<open>parse\_connection\_name\<close>

text \<open>
  \<open>connection.split(".", maxsplit=1)\<close>: the text before the first dot and the text
  after it.
\<close>

definition split_first_dot :: "string \<Rightarrow> string \<times> string" where
  "split_first_dot connection =
     (takeWhile (\<lambda>c. c \<noteq> CHR ''.'') connection,
      tl (dropWhile (\<lambda>c. c \<noteq> CHR ''.'') connection))"

definition parse_connection_name :: "string \<Rightarrow> string \<times> string option" where
  "parse_connection_name connection =
     (if CHR ''.'' \<in> set connection
      then (fst (split_first_dot connection), Some (snd (split_first_dot connection)))
      else (connection, None))"

subsection \<open>find\_unambiguous\_connection\<close>

text \<open>Python truthiness of \<open>in_sock.sender\<close>: \<open>None\<close> and the empty string are falsy.\<close>

definition truthy :: "string option \<Rightarrow> bool" where
  "truthy s = (case s of None \<Rightarrow> False | Some n \<Rightarrow> n \<noteq> [])"

text \<open>
  \<open>possible_connections\<close>: \<open>itertools.product\<close> enumerates the pairs with the output
  socket varying slowest, as \<open>List.product\<close> does.
\<close>

definition possible_connections ::
  "OutputSocket list \<Rightarrow> InputSocket list \<Rightarrow> (OutputSocket \<times> InputSocket) list" where
  "possible_connections from_sockets to_sockets =
     filter (\<lambda>(out_sock, in_sock).
         \<not> truthy (sender in_sock)
         \<and> (TAny \<in> types in_sock \<or> types out_sock = types in_sock))
       (List.product from_sockets to_sockets)"

definition name_matches ::
  "(OutputSocket \<times> InputSocket) list \<Rightarrow> (OutputSocket \<times> InputSocket) list" where
  "name_matches pcs = filter (\<lambda>(out_sock, in_sock). name in_sock = name out_sock) pcs"

text \<open>
  The two error messages are kept up to their first sentence; the per-socket status
  listing appended to them is left out.
\<close>

definition find_unambiguous_connection ::
  "string \<Rightarrow> string \<Rightarrow> OutputSocket list \<Rightarrow> InputSocket list
     \<Rightarrow> error + (OutputSocket \<times> InputSocket)" where
  "find_unambiguous_connection from_node to_node from_sockets to_sockets =
     (let pcs = possible_connections from_sockets to_sockets in
      if pcs = [] then Inl (PipelineConnectError ''no matching connections available'')
      else if 1 < length pcs \<and> length (name_matches pcs) \<noteq> 1
        then Inl (PipelineConnectError ''more than one connection is possible'')
      else Inr (hd pcs))"

section \<open>Graph store and scheduler\<close>

text \<open>
  The pipeline class itself (\<open>haystack.core.pipeline\<close>) is not among the sources; only its
  tests are. This section models the parts of it that the properties below are about from
  the specification (sections 3, 4.3 and 4.4), and the test pipelines from the tests.
\<close>

subsection \<open>Data model\<close>

text \<open>
  Modelled from the spec: the values that flow between components. The engine never
  looks into a value; integers, strings and \<open>None\<close> are enough for the test pipelines.
\<close>

datatype val = VInt int | VStr string | VNone

text \<open>
  Modelled from the spec: what a component's execution operation gives back (section 6):
  a mapping of output name to value, a value that is no such mapping, or a failure.
\<close>

datatype outcome = Mapping "(string \<times> val) list" | NotMapping val | Raises string

text \<open>
  Modelled from the spec: a component as the engine sees it (sections 2 and 3): the
  identity of its execution object, the names of its input sockets, the default value of
  each optional one (a socket with no default is mandatory) and the execution operation.
\<close>

record component =
  instance_of :: nat
  input_sockets :: "string list"
  default_values :: "string \<rightharpoonup> val"
  execute :: "(string \<rightharpoonup> val) \<Rightarrow> outcome"

text \<open>
  Modelled from the spec: a connection (section 3): the sender's component and output
  socket, the receiver's component and input socket.
\<close>

record connection =
  conn_sender :: "string \<times> string"
  conn_receiver :: "string \<times> string"

text \<open>
  Modelled from the spec: the graph store (sections 3 and 6): its identity, the ceiling
  \<open>max_loops_allowed\<close>, the components in the order they were added and the connections.
\<close>

record pipeline =
  graph_id :: nat
  max_loops_allowed :: nat
  components :: "(string \<times> component) list"
  connections :: "connection list"

text \<open>Modelled from the spec: a new, empty graph store, \<open>Pipeline(max_loops_allowed=m)\<close>.\<close>

definition Pipeline :: "nat \<Rightarrow> nat \<Rightarrow> pipeline" where
  "Pipeline g m = \<lparr>graph_id = g, max_loops_allowed = m, components = [], connections = []\<rparr>"

subsection \<open>add\_component\<close>

text \<open>
  Modelled from the spec: the ownership stamp of the design notes, as a store that maps
  the identity of a component instance to the graph that owns it.
\<close>

type_synonym ownership = "nat \<rightharpoonup> nat"

text \<open>
  Modelled from the spec: \<open>Pipeline.add_component\<close> (section 4.3): it fails if the name
  already exists, or if the instance already belongs to another graph store; otherwise
  the graph takes the instance and stamps it.
\<close>

definition add_component ::
  "ownership \<Rightarrow> pipeline \<Rightarrow> string \<Rightarrow> component \<Rightarrow> error + (ownership \<times> pipeline)" where
  "add_component owners p cname c =
     (if cname \<in> fst ` set (components p)
        then Inl (PipelineError ''a component with this name already exists'')
      else if (case owners (instance_of c) of None \<Rightarrow> False | Some g \<Rightarrow> g \<noteq> graph_id p)
        then Inl (PipelineError ''the component has already been added to another pipeline'')
      else Inr (owners(instance_of c \<mapsto> graph_id p),
                p\<lparr>components := components p @ [(cname, c)]\<rparr>))"

subsection \<open>Run state\<close>

text \<open>
  Modelled from the spec: the run state (section 3): the visit count of each component,
  the values routed to each component and not yet consumed, the components waiting to be
  scheduled (those that have not run yet, or have been sent a value since they last ran),
  the result mapping collected so far, and the components in the order they executed.
\<close>

record run_state =
  visits :: "string \<Rightarrow> nat"
  pending_inputs :: "string \<Rightarrow> (string \<rightharpoonup> val)"
  awaiting :: "string set"
  outputs :: "string \<rightharpoonup> (string \<rightharpoonup> val)"
  executed :: "string list"

text \<open>Modelled from the spec: the caller's inputs of \<open>run\<close>, by component and socket.\<close>

type_synonym run_inputs = "string \<Rightarrow> (string \<rightharpoonup> val)"

text \<open>
  Modelled from the spec: initialization (section 4.4): every visit count is 0, nothing
  has been routed, every component may be scheduled.
\<close>

definition init_state :: "pipeline \<Rightarrow> run_state" where
  "init_state p =
     \<lparr>visits = (\<lambda>n. 0), pending_inputs = (\<lambda>n. Map.empty),
      awaiting = fst ` set (components p), outputs = Map.empty, executed = []\<rparr>"

text \<open>
  Modelled from the spec: the inputs a component is invoked with: its defaults, overridden
  by the values of the caller, overridden by the values routed to it. The caller's values
  stay with the component for the whole run: the test \<open>pipeline_that_has_an_infinite_loop\<close>
  re-enters \<open>first\<close> on the strength of the \<open>x\<close> it was given once.
\<close>

definition collected_inputs ::
  "run_inputs \<Rightarrow> run_state \<Rightarrow> string \<Rightarrow> component \<Rightarrow> (string \<rightharpoonup> val)" where
  "collected_inputs inputs s n c = default_values c ++ inputs n ++ pending_inputs s n"

text \<open>
  Modelled from the spec: ready determination (section 4.4): the component waits to be
  scheduled and each of its input sockets has a value or a default.
\<close>

definition is_ready :: "run_inputs \<Rightarrow> run_state \<Rightarrow> string \<times> component \<Rightarrow> bool" where
  "is_ready inputs s nc =
     (fst nc \<in> awaiting s
      \<and> list_all (\<lambda>i. collected_inputs inputs s (fst nc) (snd nc) i \<noteq> None)
           (input_sockets (snd nc)))"

text \<open>
  Modelled from the spec: the component picked by an execution step: the first ready one
  in insertion order.
\<close>

definition next_ready ::
  "pipeline \<Rightarrow> run_inputs \<Rightarrow> run_state \<Rightarrow> (string \<times> component) option" where
  "next_ready p inputs s = List.find (is_ready inputs s) (components p)"

text \<open>Modelled from the spec: the receivers wired to an output socket of a component.\<close>

definition receivers_of :: "pipeline \<Rightarrow> string \<Rightarrow> string \<Rightarrow> (string \<times> string) list" where
  "receivers_of p n out =
     map conn_receiver (filter (\<lambda>e. conn_sender e = (n, out)) (connections p))"

text \<open>
  Modelled from the spec: delivery of a value to one receiver: it overwrites the pending
  value of that input socket, and the receiver waits to be scheduled again.
\<close>

definition deliver :: "val \<Rightarrow> string \<times> string \<Rightarrow> run_state \<Rightarrow> run_state" where
  "deliver v r s =
     s\<lparr>pending_inputs := (pending_inputs s)(fst r := (pending_inputs s (fst r))(snd r \<mapsto> v)),
       awaiting := insert (fst r) (awaiting s)\<rparr>"

text \<open>
  Modelled from the spec: routing of one produced output: to every connected receiver,
  or, when the output socket has no receiver, into the result mapping under the
  component's name and the socket's name.
\<close>

definition route :: "pipeline \<Rightarrow> string \<Rightarrow> string \<times> val \<Rightarrow> run_state \<Rightarrow> run_state" where
  "route p n ov s =
     (case receivers_of p n (fst ov) of
        [] \<Rightarrow> s\<lparr>outputs := (outputs s)
                 (n \<mapsto> (case outputs s n of None \<Rightarrow> Map.empty | Some m \<Rightarrow> m)
                        (fst ov \<mapsto> snd ov))\<rparr>
      | rs \<Rightarrow> fold (deliver (snd ov)) rs s)"

text \<open>
  Modelled from the spec: what an execution does to the component itself: its visit count
  goes up by one, the routed values it consumed are cleared, it no longer waits, and it
  is appended to the order of execution.
\<close>

definition consume :: "string \<Rightarrow> run_state \<Rightarrow> run_state" where
  "consume n s =
     s\<lparr>visits := (visits s)(n := Suc (visits s n)),
       pending_inputs := (pending_inputs s)(n := Map.empty),
       awaiting := awaiting s - {n},
       executed := executed s @ [n]\<rparr>"

subsection \<open>Execution step and run\<close>

text \<open>Modelled from the spec: the three ways an execution step can end.\<close>

datatype step_result = Finished | Failed error | Continue run_state

text \<open>
  Modelled from the spec: the execution step (section 4.4). No component ready: the run
  ends. The visit count of the picked component exceeds \<open>max_loops_allowed\<close>:
  \<open>PipelineMaxLoops\<close>, naming it. Its execution fails, or returns what is not a mapping:
  \<open>PipelineRuntimeError\<close>, naming it. Otherwise its outputs are routed. The ceiling is
  exceeded only by a visit count above it: the test \<open>pipeline_complex\<close> sets
  \<open>max_loops_allowed\<close> to 2 and expects a run that ends well with \<open>multiplexer\<close> and
  \<open>below_10\<close> executed three times each.
\<close>

definition step :: "pipeline \<Rightarrow> run_inputs \<Rightarrow> run_state \<Rightarrow> step_result" where
  "step p inputs s =
     (case next_ready p inputs s of
        None \<Rightarrow> Finished
      | Some (n, c) \<Rightarrow>
          if max_loops_allowed p < visits s n then Failed (PipelineMaxLoops n)
          else (case execute c (collected_inputs inputs s n c) of
                  Raises msg \<Rightarrow> Failed (PipelineRuntimeError n)
                | NotMapping v \<Rightarrow> Failed (PipelineRuntimeError n)
                | Mapping outs \<Rightarrow> Continue (fold (route p n) outs (consume n s))))"

text \<open>
  The executions the ceiling still allows, summed over the components: the measure that
  every execution step decreases.
\<close>

definition loops_left :: "pipeline \<Rightarrow> run_state \<Rightarrow> nat" where
  "loops_left p s =
     (\<Sum>n \<in> fst ` set (components p). Suc (max_loops_allowed p) - visits s n)"

lemma visits_deliver [simp]: "visits (deliver v r s) = visits s"
  by (simp add: deliver_def)

lemma visits_fold_deliver [simp]: "visits (fold (deliver v) rs s) = visits s"
  by (induction rs arbitrary: s) simp_all

lemma visits_route [simp]: "visits (route p n ov s) = visits s"
  by (simp add: route_def split: list.splits)

lemma visits_fold_route [simp]: "visits (fold (route p n) outs s) = visits s"
  by (induction outs arbitrary: s) simp_all

lemma next_ready_member:
  "next_ready p inputs s = Some (n, c) \<Longrightarrow>
     (n, c) \<in> set (components p) \<and> is_ready inputs s (n, c)"
  unfolding next_ready_def by (auto simp: find_Some_iff)

lemma step_Continue:
  assumes "step p inputs s = Continue s'"
  obtains n c outs where "next_ready p inputs s = Some (n, c)"
    and "visits s n \<le> max_loops_allowed p"
    and "execute c (collected_inputs inputs s n c) = Mapping outs"
    and "s' = fold (route p n) outs (consume n s)"
  using assms unfolding step_def
  by (auto split: option.splits if_splits outcome.splits)

lemma step_decreases:
  assumes "step p inputs s = Continue s'"
  shows "loops_left p s' < loops_left p s"
proof -
  from assms obtain n c outs where nr: "next_ready p inputs s = Some (n, c)"
    and lt: "visits s n \<le> max_loops_allowed p"
    and s': "s' = fold (route p n) outs (consume n s)"
    by (rule step_Continue)
  have v: "visits s' = (visits s)(n := Suc (visits s n))"
    by (simp add: s' consume_def)
  from nr have mem: "n \<in> fst ` set (components p)"
    using next_ready_member by force
  show ?thesis
    unfolding loops_left_def
  proof (rule sum_strict_mono_ex1)
    show "finite (fst ` set (components p))" by simp
    show "\<forall>m\<in>fst ` set (components p).
        Suc (max_loops_allowed p) - visits s' m \<le> Suc (max_loops_allowed p) - visits s m"
      by (auto simp: v)
    show "\<exists>m\<in>fst ` set (components p).
        Suc (max_loops_allowed p) - visits s' m < Suc (max_loops_allowed p) - visits s m"
      using mem lt by (intro bexI [of _ n]) (simp_all add: v)
  qed
qed

text \<open>
  Modelled from the spec: the scheduler's loop: execution steps until no component is
  ready or a step fails. It gives the last state and the failure, if any.
\<close>

function run_loop :: "pipeline \<Rightarrow> run_inputs \<Rightarrow> run_state \<Rightarrow> run_state \<times> error option" where
  "run_loop p inputs s =
     (case step p inputs s of
        Finished \<Rightarrow> (s, None)
      | Failed e \<Rightarrow> (s, Some e)
      | Continue s' \<Rightarrow> run_loop p inputs s')"
  by pat_completeness auto
termination
  by (relation "measure (\<lambda>(p, inputs, s). loops_left p s)") (simp_all add: step_decreases)

declare run_loop.simps [simp del]

text \<open>
  Modelled from the spec: \<open>run\<close>: the result mapping of a run that ends, the failure of
  one that aborts (no partial outputs are returned).
\<close>

definition run :: "pipeline \<Rightarrow> run_inputs \<Rightarrow> error + (string \<rightharpoonup> (string \<rightharpoonup> val))" where
  "run p inputs =
     (case run_loop p inputs (init_state p) of
        (s, None) \<Rightarrow> Inr (outputs s)
      | (s, Some e) \<Rightarrow> Inl e)"

text \<open>The components a run executed, in order, up to its end or its failure.\<close>

definition run_trace :: "pipeline \<Rightarrow> run_inputs \<Rightarrow> string list" where
  "run_trace p inputs = executed (fst (run_loop p inputs (init_state p)))"

text \<open>The state a run is in after \<open>k\<close> executions, if it gets that far.\<close>

fun after_steps :: "pipeline \<Rightarrow> run_inputs \<Rightarrow> nat \<Rightarrow> run_state \<Rightarrow> run_state option" where
  "after_steps p inputs 0 s = Some s"
| "after_steps p inputs (Suc k) s =
     (case step p inputs s of Continue s' \<Rightarrow> after_steps p inputs k s' | _ \<Rightarrow> None)"

subsection \<open>Pipelines of the tests\<close>

text \<open>
  \<open>test_run.py\<close>, \<open>pipeline_that_has_an_infinite_loop\<close>: \<open>FakeComponent\<close> has the mandatory
  input \<open>x\<close>, the input \<open>y\<close> of default 1, and always returns \<open>{"a": 1, "b": 1}\<close>; \<open>first.a\<close>
  feeds \<open>second.x\<close>, \<open>second.b\<close> feeds \<open>first.y\<close>, and \<open>max_loops_allowed\<close> is 1.
\<close>

definition FakeComponent :: "nat \<Rightarrow> component" where
  "FakeComponent i =
     \<lparr>instance_of = i, input_sockets = [''x'', ''y''], default_values = [''y'' \<mapsto> VInt 1],
      execute = (\<lambda>_. Mapping [(''a'', VInt 1), (''b'', VInt 1)])\<rparr>"

definition infinite_loop_pipeline :: pipeline where
  "infinite_loop_pipeline =
     \<lparr>graph_id = 0, max_loops_allowed = 1,
      components = [(''first'', FakeComponent 0), (''second'', FakeComponent 1)],
      connections =
        [\<lparr>conn_sender = (''first'', ''a''), conn_receiver = (''second'', ''x'')\<rparr>,
         \<lparr>conn_sender = (''second'', ''b''), conn_receiver = (''first'', ''y'')\<rparr>]\<rparr>"

definition infinite_loop_inputs :: run_inputs where
  "infinite_loop_inputs = (\<lambda>n. if n = ''first'' then [''x'' \<mapsto> VInt 1] else Map.empty)"

text \<open>
  \<open>test_run.py\<close>, \<open>pipeline_complex\<close>: the loop of that pipeline, with the component that
  feeds it. \<open>max_loops_allowed\<close> is 2; \<open>add_one\<close> feeds \<open>multiplexer.value\<close>, \<open>multiplexer\<close>
  feeds \<open>below_10\<close>, \<open>below_10.below\<close> feeds \<open>double\<close> and \<open>double\<close> feeds
  \<open>multiplexer.value\<close>. In the test \<open>add_one\<close> receives 3, and the expected order of
  execution goes through \<open>multiplexer\<close> and \<open>below_10\<close> three times and through \<open>double\<close>
  twice. The sample components are not among the sources; they are taken by their names
  and the sockets the tests connect: \<open>AddFixedValue\<close> adds its constant to \<open>value\<close> and
  gives \<open>result\<close>, \<open>Multiplexer\<close> passes \<open>value\<close> on, \<open>Threshold\<close> sends \<open>value\<close> to \<open>below\<close>
  when it is under the threshold and to \<open>above\<close> otherwise, \<open>Double\<close> doubles \<open>value\<close>.
\<close>

definition AddFixedValue :: "nat \<Rightarrow> int \<Rightarrow> component" where
  "AddFixedValue i add =
     \<lparr>instance_of = i, input_sockets = [''value'', ''add''],
      default_values = [''add'' \<mapsto> VNone],
      execute = (\<lambda>m. case (m ''value'', m ''add'') of
          (Some (VInt v), Some (VInt a)) \<Rightarrow> Mapping [(''result'', VInt (v + a))]
        | (Some (VInt v), _) \<Rightarrow> Mapping [(''result'', VInt (v + add))]
        | _ \<Rightarrow> Raises ''value is not an integer'')\<rparr>"

definition Multiplexer :: "nat \<Rightarrow> component" where
  "Multiplexer i =
     \<lparr>instance_of = i, input_sockets = [''value''], default_values = Map.empty,
      execute = (\<lambda>m. case m ''value'' of
          Some v \<Rightarrow> Mapping [(''value'', v)]
        | None \<Rightarrow> Raises ''no value'')\<rparr>"

definition Threshold :: "nat \<Rightarrow> int \<Rightarrow> component" where
  "Threshold i threshold =
     \<lparr>instance_of = i, input_sockets = [''value''], default_values = Map.empty,
      execute = (\<lambda>m. case m ''value'' of
          Some (VInt v) \<Rightarrow>
            if v < threshold then Mapping [(''below'', VInt v)] else Mapping [(''above'', VInt v)]
        | _ \<Rightarrow> Raises ''value is not an integer'')\<rparr>"

definition Double :: "nat \<Rightarrow> component" where
  "Double i =
     \<lparr>instance_of = i, input_sockets = [''value''], default_values = Map.empty,
      execute = (\<lambda>m. case m ''value'' of
          Some (VInt v) \<Rightarrow> Mapping [(''value'', VInt (2 * v))]
        | _ \<Rightarrow> Raises ''value is not an integer'')\<rparr>"

definition threshold_loop_pipeline :: pipeline where
  "threshold_loop_pipeline =
     \<lparr>graph_id = 0, max_loops_allowed = 2,
      components = [(''add_one'', AddFixedValue 0 1), (''multiplexer'', Multiplexer 1),
                    (''below_10'', Threshold 2 10), (''double'', Double 3)],
      connections =
        [\<lparr>conn_sender = (''add_one'', ''result''), conn_receiver = (''multiplexer'', ''value'')\<rparr>,
         \<lparr>conn_sender = (''multiplexer'', ''value''), conn_receiver = (''below_10'', ''value'')\<rparr>,
         \<lparr>conn_sender = (''below_10'', ''below''), conn_receiver = (''double'', ''value'')\<rparr>,
         \<lparr>conn_sender = (''double'', ''value''), conn_receiver = (''multiplexer'', ''value'')\<rparr>]\<rparr>"

definition threshold_loop_inputs :: run_inputs where
  "threshold_loop_inputs = (\<lambda>n. if n = ''add_one'' then [''value'' \<mapsto> VInt 3] else Map.empty)"

text \<open>
  \<open>test_pipeline.py\<close>, \<open>test_run_with_component_that_does_not_return_dict\<close>: the component has
  the input \<open>a\<close> and returns the integer 1; \<open>max_loops_allowed\<close> is 10.
\<close>

definition BrokenComponent :: component where
  "BrokenComponent =
     \<lparr>instance_of = 0, input_sockets = [''a''], default_values = Map.empty,
      execute = (\<lambda>_. NotMapping (VInt 1))\<rparr>"

definition broken_pipeline :: pipeline where
  "broken_pipeline =
     \<lparr>graph_id = 0, max_loops_allowed = 10, components = [(''comp'', BrokenComponent)],
      connections = []\<rparr>"

definition broken_inputs :: run_inputs where
  "broken_inputs = (\<lambda>n. if n = ''comp'' then [''a'' \<mapsto> VInt 1] else Map.empty)"

text \<open>
  \<open>test_pipeline.py\<close>, \<open>test_add_component_to_different_pipelines\<close>: a component instance,
  not yet added anywhere.
\<close>

definition some_component :: component where
  "some_component =
     \<lparr>instance_of = 0, input_sockets = [], default_values = Map.empty,
      execute = (\<lambda>_. Mapping [])\<rparr>"

section \<open>Properties of the connection resolver\<close>

lemma split_first_dot_append:
  assumes "CHR ''.'' \<notin> set a"
  shows "split_first_dot (a @ CHR ''.'' # b) = (a, b)"
proof -
  have "takeWhile (\<lambda>c. c \<noteq> CHR ''.'') (a @ CHR ''.'' # b) = a"
    using assms by (induction a) auto
  moreover have "dropWhile (\<lambda>c. c \<noteq> CHR ''.'') (a @ CHR ''.'' # b) = CHR ''.'' # b"
    using assms by (induction a) auto
  ultimately show ?thesis by (simp add: split_first_dot_def)
qed

lemma split_first_dot_decompose:
  assumes "CHR ''.'' \<in> set s"
  shows "s = fst (split_first_dot s) @ CHR ''.'' # snd (split_first_dot s)
         \<and> CHR ''.'' \<notin> set (fst (split_first_dot s))"
proof -
  let ?p = "\<lambda>c. c \<noteq> CHR ''.''"
  from assms have ne: "dropWhile ?p s \<noteq> []" by (simp add: dropWhile_eq_Nil_conv)
  then have hd: "hd (dropWhile ?p s) = CHR ''.''" using hd_dropWhile [of ?p s] by simp
  from ne hd have "dropWhile ?p s = CHR ''.'' # tl (dropWhile ?p s)"
    by (cases "dropWhile ?p s") auto
  then have "s = takeWhile ?p s @ CHR ''.'' # tl (dropWhile ?p s)"
    using takeWhile_dropWhile_id [of ?p s] by simp
  moreover have "CHR ''.'' \<notin> set (takeWhile ?p s)"
    using set_takeWhileD by fastforce
  ultimately show ?thesis by (simp add: split_first_dot_def)
qed

text \<open>
  C9. Parsing a connection string splits on the first dot only: a string \<open>a.b\<close> whose
  part \<open>a\<close> has no dot gives the component \<open>a\<close> and the socket \<open>b\<close>, whatever dots \<open>b\<close>
  holds; every string with a dot is of that form; a string without a dot is the component
  name, with no socket name.
\<close>

theorem parse_connection_name_first_dot:
  "(CHR ''.'' \<notin> set a \<longrightarrow> parse_connection_name (a @ CHR ''.'' # b) = (a, Some b))
   \<and> (CHR ''.'' \<in> set s \<longrightarrow>
        (\<exists>a b. s = a @ CHR ''.'' # b \<and> CHR ''.'' \<notin> set a
               \<and> parse_connection_name s = (a, Some b)))
   \<and> (CHR ''.'' \<notin> set s \<longrightarrow> parse_connection_name s = (s, None))"
proof (intro conjI impI)
  assume "CHR ''.'' \<notin> set a"
  then show "parse_connection_name (a @ CHR ''.'' # b) = (a, Some b)"
    by (simp add: parse_connection_name_def split_first_dot_append)
next
  assume d: "CHR ''.'' \<in> set s"
  let ?a = "fst (split_first_dot s)" and ?b = "snd (split_first_dot s)"
  from split_first_dot_decompose [OF d]
  have "s = ?a @ CHR ''.'' # ?b" and "CHR ''.'' \<notin> set ?a" by simp_all
  moreover from d have "parse_connection_name s = (?a, Some ?b)"
    by (simp add: parse_connection_name_def)
  ultimately show "\<exists>a b. s = a @ CHR ''.'' # b \<and> CHR ''.'' \<notin> set a
      \<and> parse_connection_name s = (a, Some b)"
    by blast
next
  assume "CHR ''.'' \<notin> set s"
  then show "parse_connection_name s = (s, None)"
    by (simp add: parse_connection_name_def)
qed

theorem parse_connection_name_first_dot_witness:
  "parse_connection_name ''comp.sock.et'' = (''comp'', Some ''sock.et'')
   \<and> (\<exists>a b. ''x.y'' = a @ CHR ''.'' # b \<and> CHR ''.'' \<notin> set a
          \<and> parse_connection_name ''x.y'' = (a, Some b))
   \<and> parse_connection_name ''comp'' = (''comp'', None)"
  using parse_connection_name_first_dot [of "''comp''" "''sock.et''" "''x.y''"]
    parse_connection_name_first_dot [of "''''" "''''" "''comp''"]
  by simp


lemma possible_connections_member:
  "(out_sock, in_sock) \<in> set (possible_connections from_sockets to_sockets) \<longleftrightarrow>
     out_sock \<in> set from_sockets \<and> in_sock \<in> set to_sockets
     \<and> \<not> truthy (sender in_sock)
     \<and> (TAny \<in> types in_sock \<or> types out_sock = types in_sock)"
  by (auto simp: possible_connections_def)

lemma truthy_iff: "truthy s \<longleftrightarrow> (\<exists>n. s = Some n \<and> n \<noteq> [])"
  by (cases s) (simp_all add: truthy_def)




text \<open>
  C2 (as amended). The candidates are the pairs of the product of the sender's output
  sockets and the receiver's input sockets that are type-compatible and whose input
  socket has no sender at all, in the order of the product. An input socket that has a
  sender is in no candidate, whoever the sender is, the connecting component included;
  when every input socket of the receiver has a sender, the resolver fails with
  \<open>PipelineConnectError\<close>.
\<close>

theorem candidates_are_unclaimed_compatible_pairs:
  "((out_sock, in_sock) \<in> set (possible_connections from_sockets to_sockets) \<longleftrightarrow>
      (out_sock, in_sock) \<in> set (List.product from_sockets to_sockets)
      \<and> sender in_sock \<in> {None, Some []}
      \<and> (TAny \<in> types in_sock \<or> types out_sock = types in_sock))
   \<and> (\<exists>keep. possible_connections from_sockets to_sockets
          = filter keep (List.product from_sockets to_sockets))
   \<and> ((\<forall>i \<in> set to_sockets. \<exists>n. sender i = Some n \<and> n \<noteq> []) \<longrightarrow>
        find_unambiguous_connection from_node to_node from_sockets to_sockets
          = Inl (PipelineConnectError ''no matching connections available''))"
proof (intro conjI impI)
  have "\<not> truthy (sender in_sock) \<longleftrightarrow> sender in_sock \<in> {None, Some []}"
    by (cases "sender in_sock") (auto simp: truthy_def)
  then show "(out_sock, in_sock) \<in> set (possible_connections from_sockets to_sockets) \<longleftrightarrow>
      (out_sock, in_sock) \<in> set (List.product from_sockets to_sockets)
      \<and> sender in_sock \<in> {None, Some []}
      \<and> (TAny \<in> types in_sock \<or> types out_sock = types in_sock)"
    by (simp add: possible_connections_member)
next
  show "\<exists>keep. possible_connections from_sockets to_sockets
      = filter keep (List.product from_sockets to_sockets)"
    unfolding possible_connections_def by blast
next
  assume claimed: "\<forall>i \<in> set to_sockets. \<exists>n. sender i = Some n \<and> n \<noteq> []"
  have "possible_connections from_sockets to_sockets = []"
  proof (rule ccontr)
    assume "possible_connections from_sockets to_sockets \<noteq> []"
    then obtain pr where "pr \<in> set (possible_connections from_sockets to_sockets)"
      by (cases "possible_connections from_sockets to_sockets") auto
    then have "(fst pr, snd pr) \<in> set (possible_connections from_sockets to_sockets)"
      by simp
    then have "snd pr \<in> set to_sockets" and "\<not> truthy (sender (snd pr))"
      unfolding possible_connections_member by simp_all
    with claimed show False by (auto simp: truthy_iff)
  qed
  then show "find_unambiguous_connection from_node to_node from_sockets to_sockets
      = Inl (PipelineConnectError ''no matching connections available'')"
    by (simp add: find_unambiguous_connection_def)
qed

theorem candidates_are_unclaimed_compatible_pairs_witness:
  "(\<lparr>name = ''y'', types = {TClass ''int''}\<rparr>,
      \<lparr>name = ''x'', types = {TClass ''int''}, sender = None\<rparr>)
     \<in> set (possible_connections
          [\<lparr>name = ''y'', types = {TClass ''int''}\<rparr>]
          [\<lparr>name = ''x'', types = {TClass ''int''}, sender = None\<rparr>,
           \<lparr>name = ''z'', types = {TClass ''int''}, sender = Some ''other''\<rparr>])
   \<and> find_unambiguous_connection ''a'' ''b''
        [\<lparr>name = ''y'', types = {TClass ''int''}\<rparr>]
        [\<lparr>name = ''z'', types = {TClass ''int''}, sender = Some ''other''\<rparr>]
      = Inl (PipelineConnectError ''no matching connections available'')"
  using candidates_are_unclaimed_compatible_pairs
      [of "\<lparr>name = ''y'', types = {TClass ''int''}\<rparr>"
          "\<lparr>name = ''x'', types = {TClass ''int''}, sender = None\<rparr>"
          "[\<lparr>name = ''y'', types = {TClass ''int''}\<rparr>]"
          "[\<lparr>name = ''x'', types = {TClass ''int''}, sender = None\<rparr>,
            \<lparr>name = ''z'', types = {TClass ''int''}, sender = Some ''other''\<rparr>]"]
    candidates_are_unclaimed_compatible_pairs
      [of _ _ "[\<lparr>name = ''y'', types = {TClass ''int''}\<rparr>]"
          "[\<lparr>name = ''z'', types = {TClass ''int''}, sender = Some ''other''\<rparr>]"
          "''a''" "''b''"]
  by simp

text \<open>
  C2 as stated fails: with the input socket \<open>x\<close> of \<open>b\<close> already fed from \<open>a\<close>, the
  pair of \<open>a\<close>'s output and that input is no candidate, and declaring the connection
  from \<open>a\<close> to \<open>b\<close> again fails with \<open>PipelineConnectError\<close>.
\<close>

theorem same_sender_not_candidate_counterexample:
  "possible_connections
      [\<lparr>name = ''y'', types = {TClass ''int''}\<rparr>]
      [\<lparr>name = ''x'', types = {TClass ''int''}, sender = Some ''a''\<rparr>] = []
   \<and> find_unambiguous_connection ''a'' ''b''
      [\<lparr>name = ''y'', types = {TClass ''int''}\<rparr>]
      [\<lparr>name = ''x'', types = {TClass ''int''}, sender = Some ''a''\<rparr>]
    = Inl (PipelineConnectError ''no matching connections available'')"
  by (simp add: find_unambiguous_connection_def possible_connections_def truthy_def)

text \<open>
  C3 (as amended). With \<open>pcs\<close> the candidates that survive the filter, the resolver
  returns a pairing, one of the candidates, exactly when \<open>pcs\<close> has one element, or has
  more and exactly one of them pairs two sockets of the same name. In every other case
  the result is a \<open>PipelineConnectError\<close>. In particular two or more candidates, none of
  which pairs two sockets of the same name, always give the error.
\<close>

theorem find_unambiguous_connection_returns_iff:
  fixes from_node to_node :: string
    and from_sockets :: "OutputSocket list" and to_sockets :: "InputSocket list"
  defines "pcs \<equiv> possible_connections from_sockets to_sockets"
  defines "same_name \<equiv> filter (\<lambda>(out_sock, in_sock). name in_sock = name out_sock) pcs"
  defines "res \<equiv> find_unambiguous_connection from_node to_node from_sockets to_sockets"
  shows "((\<exists>pairing. res = Inr pairing) \<longleftrightarrow>
            length pcs = 1 \<or> (1 < length pcs \<and> length same_name = 1))
         \<and> (\<forall>pairing. res = Inr pairing \<longrightarrow> pairing \<in> set pcs)
         \<and> ((\<nexists>pairing. res = Inr pairing) \<longrightarrow> (\<exists>msg. res = Inl (PipelineConnectError msg)))
         \<and> (2 \<le> length pcs \<and> (\<forall>(out_sock, in_sock) \<in> set pcs. name out_sock \<noteq> name in_sock)
              \<longrightarrow> (\<exists>msg. res = Inl (PipelineConnectError msg)))"
proof -
  have sn: "same_name = name_matches pcs"
    by (simp add: same_name_def name_matches_def)
  have res: "res = (if pcs = [] then Inl (PipelineConnectError ''no matching connections available'')
      else if 1 < length pcs \<and> length same_name \<noteq> 1
        then Inl (PipelineConnectError ''more than one connection is possible'')
      else Inr (hd pcs))"
    by (simp add: res_def find_unambiguous_connection_def pcs_def [symmetric] sn)
  have len: "pcs \<noteq> [] \<Longrightarrow> \<not> 1 < length pcs \<Longrightarrow> length pcs = 1"
    by (cases pcs) auto
  have iff: "(\<exists>pairing. res = Inr pairing) \<longleftrightarrow>
      length pcs = 1 \<or> (1 < length pcs \<and> length same_name = 1)"
    using len by (auto simp: res)
  have ret: "\<forall>pairing. res = Inr pairing \<longrightarrow> pairing \<in> set pcs"
  proof (intro allI impI)
    fix pairing
    assume "res = Inr pairing"
    then have "pcs \<noteq> []" and "pairing = hd pcs"
      by (auto simp: res split: if_splits)
    then show "pairing \<in> set pcs" by simp
  qed
  have err: "(\<nexists>pairing. res = Inr pairing) \<longrightarrow> (\<exists>msg. res = Inl (PipelineConnectError msg))"
    by (auto simp: res)
  have diff: "2 \<le> length pcs \<and> (\<forall>(out_sock, in_sock) \<in> set pcs. name out_sock \<noteq> name in_sock)
      \<longrightarrow> (\<exists>msg. res = Inl (PipelineConnectError msg))"
  proof
    assume a: "2 \<le> length pcs \<and> (\<forall>(out_sock, in_sock) \<in> set pcs. name out_sock \<noteq> name in_sock)"
    then have "same_name = []"
      by (auto simp: same_name_def filter_empty_conv)
    with a show "\<exists>msg. res = Inl (PipelineConnectError msg)"
      by (auto simp: res)
  qed
  from iff ret err diff show ?thesis by blast
qed

theorem find_unambiguous_connection_returns_iff_witness:
  "(\<exists>msg. find_unambiguous_connection ''a'' ''b''
        [\<lparr>name = ''first'', types = {TClass ''int''}\<rparr>,
         \<lparr>name = ''second'', types = {TClass ''int''}\<rparr>]
        [\<lparr>name = ''x'', types = {TClass ''int''}, sender = None\<rparr>,
         \<lparr>name = ''y'', types = {TClass ''int''}, sender = None\<rparr>]
      = Inl (PipelineConnectError msg))
   \<and> (\<exists>pairing. find_unambiguous_connection ''a'' ''b''
        [\<lparr>name = ''value'', types = {TClass ''int''}\<rparr>,
         \<lparr>name = ''text'', types = {TClass ''str''}\<rparr>]
        [\<lparr>name = ''value'', types = {TClass ''int''}, sender = None\<rparr>,
         \<lparr>name = ''other'', types = {TClass ''int''}, sender = None\<rparr>]
      = Inr pairing)"
proof -
  let ?o1 = "[\<lparr>name = ''first'', types = {TClass ''int''}\<rparr>,
         \<lparr>name = ''second'', types = {TClass ''int''}\<rparr>]"
  let ?i1 = "[\<lparr>name = ''x'', types = {TClass ''int''}, sender = None\<rparr>,
         \<lparr>name = ''y'', types = {TClass ''int''}, sender = None\<rparr>]"
  let ?o2 = "[\<lparr>name = ''value'', types = {TClass ''int''}\<rparr>,
         \<lparr>name = ''text'', types = {TClass ''str''}\<rparr>]"
  let ?i2 = "[\<lparr>name = ''value'', types = {TClass ''int''}, sender = None\<rparr>,
         \<lparr>name = ''other'', types = {TClass ''int''}, sender = None\<rparr>]"
  have p1: "possible_connections ?o1 ?i1 = List.product ?o1 ?i1"
    by (simp add: possible_connections_def truthy_def)
  have p2: "possible_connections ?o2 ?i2 = [(?o2 ! 0, ?i2 ! 0), (?o2 ! 0, ?i2 ! 1)]"
    by (simp add: possible_connections_def truthy_def)
  show ?thesis
    using find_unambiguous_connection_returns_iff [of "''a''" "''b''" ?o1 ?i1]
      find_unambiguous_connection_returns_iff [of "''a''" "''b''" ?o2 ?i2]
    unfolding p1 p2 by simp
qed

text \<open>
  C3 as stated fails in its last part: with the outputs \<open>x\<close> and \<open>value\<close> and the inputs
  \<open>other\<close> and \<open>value\<close>, all of type \<open>int\<close>, three candidates pair sockets of different
  names, and the connection without socket names does not fail: one candidate pairs
  equal names, and the resolver returns a pairing (the first candidate, \<open>(x, other)\<close>).
\<close>

theorem differently_named_pairs_resolved_counterexample:
  "find_unambiguous_connection ''a'' ''b''
      [\<lparr>name = ''x'', types = {TClass ''int''}\<rparr>,
       \<lparr>name = ''value'', types = {TClass ''int''}\<rparr>]
      [\<lparr>name = ''other'', types = {TClass ''int''}, sender = None\<rparr>,
       \<lparr>name = ''value'', types = {TClass ''int''}, sender = None\<rparr>]
    = Inr (\<lparr>name = ''x'', types = {TClass ''int''}\<rparr>,
           \<lparr>name = ''other'', types = {TClass ''int''}, sender = None\<rparr>)"
  by (simp add: find_unambiguous_connection_def possible_connections_def truthy_def
      name_matches_def)

text \<open>
  The pairing returned is always the first candidate, \<open>possible_connections[0]\<close>, also
  when another candidate is the one that pairs equal names. With the outputs \<open>a\<close> and
  \<open>b\<close> and the single input \<open>b\<close>, all of type \<open>int\<close>, the candidates are \<open>(a, b)\<close> and
  \<open>(b, b)\<close>, and the resolver returns \<open>(a, b)\<close>.
\<close>

lemma first_candidate_returned:
  "find_unambiguous_connection from_node to_node from_sockets to_sockets = Inr pairing
     \<Longrightarrow> pairing = hd (possible_connections from_sockets to_sockets)"
  by (auto simp: find_unambiguous_connection_def Let_def split: if_splits)

lemma first_candidate_returned_example:
  "find_unambiguous_connection ''x'' ''y''
      [\<lparr>name = ''a'', types = {TClass ''int''}\<rparr>, \<lparr>name = ''b'', types = {TClass ''int''}\<rparr>]
      [\<lparr>name = ''b'', types = {TClass ''int''}, sender = None\<rparr>]
    = Inr (\<lparr>name = ''a'', types = {TClass ''int''}\<rparr>,
           \<lparr>name = ''b'', types = {TClass ''int''}, sender = None\<rparr>)"
  by (simp add: find_unambiguous_connection_def possible_connections_def truthy_def
      name_matches_def)

section \<open>Properties of the graph store and the scheduler\<close>

subsection \<open>What every state of a run satisfies\<close>

definition counted :: "pipeline \<Rightarrow> run_state \<Rightarrow> bool" where
  "counted p s \<longleftrightarrow>
     (\<forall>n. count_list (executed s) n = visits s n
          \<and> visits s n \<le> Suc (max_loops_allowed p))
     \<and> set (executed s) \<subseteq> fst ` set (components p)"

lemma executed_deliver [simp]: "executed (deliver v r s) = executed s"
  by (simp add: deliver_def)

lemma executed_fold_deliver [simp]: "executed (fold (deliver v) rs s) = executed s"
  by (induction rs arbitrary: s) simp_all

lemma executed_route [simp]: "executed (route p n ov s) = executed s"
  by (simp add: route_def split: list.splits)

lemma executed_fold_route [simp]: "executed (fold (route p n) outs s) = executed s"
  by (induction outs arbitrary: s) simp_all

lemma counted_init: "counted p (init_state p)"
  by (simp add: counted_def init_state_def)

lemma counted_step:
  assumes "step p inputs s = Continue s'" and "counted p s"
  shows "counted p s'"
proof -
  from assms(1) obtain n c outs where nr: "next_ready p inputs s = Some (n, c)"
    and lt: "visits s n \<le> max_loops_allowed p"
    and s': "s' = fold (route p n) outs (consume n s)"
    by (rule step_Continue)
  from nr have mem: "n \<in> fst ` set (components p)"
    using next_ready_member by force
  have "visits s' = (visits s)(n := Suc (visits s n))"
    and "executed s' = executed s @ [n]"
    by (simp_all add: s' consume_def)
  with assms(2) lt mem show ?thesis
    by (auto simp: counted_def)
qed

lemma counted_run_loop:
  "counted p s \<Longrightarrow> counted p (fst (run_loop p inputs s))"
proof (induction p inputs s rule: run_loop.induct)
  case (1 p inputs s)
  show ?case
  proof (cases "step p inputs s")
    case (Continue s')
    with 1 show ?thesis
      by (simp add: run_loop.simps [of p inputs s] counted_step)
  qed (use 1 in \<open>simp_all add: run_loop.simps [of p inputs s]\<close>)
qed

lemma after_steps_run_loop:
  "after_steps p inputs k s = Some s' \<Longrightarrow> run_loop p inputs s = run_loop p inputs s'"
proof (induction k arbitrary: s)
  case 0
  then show ?case by simp
next
  case (Suc k)
  then obtain s1 where st: "step p inputs s = Continue s1"
    and rest: "after_steps p inputs k s1 = Some s'"
    by (auto split: step_result.splits)
  from st have "run_loop p inputs s = run_loop p inputs s1"
    by (simp add: run_loop.simps [of p inputs s])
  with Suc.IH [OF rest] show ?case by simp
qed

lemma after_steps_counted:
  "after_steps p inputs k s = Some s' \<Longrightarrow> counted p s \<Longrightarrow> counted p s'"
proof (induction k arbitrary: s)
  case 0
  then show ?case by simp
next
  case (Suc k)
  then obtain s1 where st: "step p inputs s = Continue s1"
    and rest: "after_steps p inputs k s1 = Some s'"
    by (auto split: step_result.splits)
  from counted_step [OF st Suc.prems(2)] Suc.IH [OF rest] show ?case by simp
qed

lemma counted_length:
  assumes "counted p s"
  shows "length (executed s) \<le> length (components p) * Suc (max_loops_allowed p)"
proof -
  let ?X = "fst ` set (components p)"
  from assms have sub: "set (executed s) \<subseteq> ?X"
    and le: "\<And>n. count_list (executed s) n \<le> Suc (max_loops_allowed p)"
    by (simp_all add: counted_def)
  have "length (executed s) = sum (count_list (executed s)) ?X"
    using sub by (simp add: sum_count_set)
  also have "\<dots> \<le> card ?X * Suc (max_loops_allowed p)"
    using sum_bounded_above [of ?X "count_list (executed s)" "Suc (max_loops_allowed p)"] le
    by simp
  also have "\<dots> \<le> length (components p) * Suc (max_loops_allowed p)"
  proof -
    have "card ?X \<le> card (set (components p))" by (simp add: card_image_le)
    also have "\<dots> \<le> length (components p)" by (rule card_length)
    finally show ?thesis by (rule mult_le_mono1)
  qed
  finally show ?thesis .
qed

lemmas scheduler_defs = step_def next_ready_def is_ready_def collected_inputs_def consume_def
  route_def receivers_of_def deliver_def init_state_def map_add_def

subsection \<open>The loop ceiling\<close>

text \<open>
  C4 (as amended). In every run no component executes more than \<open>max_loops_allowed + 1\<close>
  times, so a run executes at most that many times the number of components and then
  ends. Whenever a run reaches a state in which the component picked next has already
  executed more than \<open>max_loops_allowed\<close> times, the run aborts with \<open>PipelineMaxLoops\<close>
  naming that component.
\<close>

theorem run_executes_at_most_ceiling_plus_one:
  "(\<forall>n. count_list (run_trace p inputs) n \<le> Suc (max_loops_allowed p))
   \<and> length (run_trace p inputs) \<le> length (components p) * Suc (max_loops_allowed p)
   \<and> (after_steps p inputs k (init_state p) = Some s
        \<and> next_ready p inputs s = Some (n, c)
        \<and> max_loops_allowed p < count_list (executed s) n
      \<longrightarrow> run p inputs = Inl (PipelineMaxLoops n))"
proof (intro conjI impI allI)
  have fin: "counted p (fst (run_loop p inputs (init_state p)))"
    by (rule counted_run_loop [OF counted_init])
  then show "count_list (run_trace p inputs) m \<le> Suc (max_loops_allowed p)" for m
    by (simp add: counted_def run_trace_def)
  from counted_length [OF fin]
  show "length (run_trace p inputs) \<le> length (components p) * Suc (max_loops_allowed p)"
    by (simp add: run_trace_def)
next
  assume a: "after_steps p inputs k (init_state p) = Some s
        \<and> next_ready p inputs s = Some (n, c)
        \<and> max_loops_allowed p < count_list (executed s) n"
  then have "counted p s"
    using after_steps_counted counted_init by blast
  with a have "max_loops_allowed p < visits s n"
    by (simp add: counted_def)
  with a have "step p inputs s = Failed (PipelineMaxLoops n)"
    by (simp add: step_def)
  then have "run_loop p inputs s = (s, Some (PipelineMaxLoops n))"
    by (simp add: run_loop.simps [of p inputs s])
  with a after_steps_run_loop [of p inputs k "init_state p" s]
  show "run p inputs = Inl (PipelineMaxLoops n)"
    by (simp add: run_def)
qed

theorem run_executes_at_most_ceiling_plus_one_witness:
  "run infinite_loop_pipeline infinite_loop_inputs = Inl (PipelineMaxLoops ''first'')
   \<and> run_trace infinite_loop_pipeline infinite_loop_inputs
       = [''first'', ''second'', ''first'', ''second'']
   \<and> (\<forall>n. count_list (run_trace infinite_loop_pipeline infinite_loop_inputs) n \<le> 2)"
proof -
  let ?p = infinite_loop_pipeline and ?i = infinite_loop_inputs
  let ?s = "\<lparr>visits = (\<lambda>n. 0)(''first'' := Suc (Suc 0), ''second'' := Suc (Suc 0)),
        pending_inputs =
          (\<lambda>n. Map.empty)(''second'' := Map.empty, ''first'' := [''y'' \<mapsto> VInt 1]),
        awaiting = {''first''},
        outputs = [''first'' \<mapsto> [''b'' \<mapsto> VInt 1], ''second'' \<mapsto> [''a'' \<mapsto> VInt 1]],
        executed = [''first'', ''second'', ''first'', ''second'']\<rparr>"
  have four: "after_steps ?p ?i 4 (init_state ?p) = Some ?s"
    by (simp add: eval_nat_numeral infinite_loop_pipeline_def infinite_loop_inputs_def
        FakeComponent_def scheduler_defs)
  have sel: "next_ready ?p ?i ?s = Some (''first'', FakeComponent 0)"
    by (simp add: infinite_loop_pipeline_def infinite_loop_inputs_def FakeComponent_def
        next_ready_def is_ready_def collected_inputs_def map_add_def)
  have cnt: "max_loops_allowed ?p < count_list (executed ?s) ''first''"
    by (simp add: infinite_loop_pipeline_def)
  have stop: "step ?p ?i ?s = Failed (PipelineMaxLoops ''first'')"
    using sel by (simp add: step_def infinite_loop_pipeline_def)
  have "run_loop ?p ?i (init_state ?p) = (?s, Some (PipelineMaxLoops ''first''))"
    using after_steps_run_loop [OF four] stop by (simp add: run_loop.simps [of ?p ?i ?s])
  then have tr: "run_trace ?p ?i = [''first'', ''second'', ''first'', ''second'']"
    by (simp add: run_trace_def)
  have m: "max_loops_allowed ?p = 1"
    by (simp add: infinite_loop_pipeline_def)
  from run_executes_at_most_ceiling_plus_one [of ?p ?i 4 ?s "''first''" "FakeComponent 0"]
    four sel cnt tr m
  show ?thesis by (simp add: numeral_2_eq_2)
qed

text \<open>
  C4 as stated fails: in the loop of \<open>pipeline_complex\<close>, with \<open>max_loops_allowed\<close> at 2,
  the run ends well, with \<open>multiplexer\<close> and \<open>below_10\<close> executed three times each, in the
  order the test expects.
\<close>

theorem ceiling_exceeded_by_one_counterexample:
  "max_loops_allowed threshold_loop_pipeline = 2
   \<and> run threshold_loop_pipeline threshold_loop_inputs
       = Inr [''below_10'' \<mapsto> [''above'' \<mapsto> VInt 16]]
   \<and> run_trace threshold_loop_pipeline threshold_loop_inputs
       = [''add_one'', ''multiplexer'', ''below_10'', ''double'',
          ''multiplexer'', ''below_10'', ''double'', ''multiplexer'', ''below_10'']
   \<and> count_list (run_trace threshold_loop_pipeline threshold_loop_inputs) ''multiplexer'' = 3"
proof -
  let ?p = threshold_loop_pipeline and ?i = threshold_loop_inputs
  let ?s = "\<lparr>visits = (\<lambda>n. 0)
          (''add_one'' := Suc 0, ''double'' := Suc (Suc 0),
           ''multiplexer'' := Suc (Suc (Suc 0)), ''below_10'' := Suc (Suc (Suc 0))),
        pending_inputs = (\<lambda>n. Map.empty)
          (''add_one'' := Map.empty, ''double'' := Map.empty,
           ''multiplexer'' := Map.empty, ''below_10'' := Map.empty),
        awaiting = {}, outputs = [''below_10'' \<mapsto> [''above'' \<mapsto> VInt 16]],
        executed = [''add_one'', ''multiplexer'', ''below_10'', ''double'',
          ''multiplexer'', ''below_10'', ''double'', ''multiplexer'', ''below_10'']\<rparr>"
  have nine: "after_steps ?p ?i 9 (init_state ?p) = Some ?s"
    by (simp add: eval_nat_numeral threshold_loop_pipeline_def threshold_loop_inputs_def
        AddFixedValue_def Multiplexer_def Threshold_def Double_def scheduler_defs)
  have "next_ready ?p ?i ?s = None"
    by (simp add: threshold_loop_pipeline_def next_ready_def is_ready_def)
  then have "step ?p ?i ?s = Finished"
    by (simp add: step_def)
  then have "run_loop ?p ?i (init_state ?p) = (?s, None)"
    using after_steps_run_loop [OF nine] by (simp add: run_loop.simps [of ?p ?i ?s])
  then show ?thesis
    by (simp add: run_def run_trace_def threshold_loop_pipeline_def)
qed

subsection \<open>A result that is not a mapping\<close>

text \<open>
  C6. Whenever a run reaches a state in which the component picked next is executed (its
  visit count does not exceed the loop ceiling) and its execution operation returns a
  value that is not a name-to-value mapping, \<open>run\<close> fails with \<open>PipelineRuntimeError\<close>
  naming that component; it returns no result mapping.
\<close>

theorem non_mapping_result_raises_runtime_error:
  assumes "after_steps p inputs k (init_state p) = Some s"
    and "next_ready p inputs s = Some (n, c)"
    and "visits s n \<le> max_loops_allowed p"
    and "execute c (collected_inputs inputs s n c) = NotMapping v"
  shows "run p inputs = Inl (PipelineRuntimeError n)"
proof -
  from assms(2-4) have "step p inputs s = Failed (PipelineRuntimeError n)"
    by (simp add: step_def)
  then have "run_loop p inputs s = (s, Some (PipelineRuntimeError n))"
    by (simp add: run_loop.simps [of p inputs s])
  with after_steps_run_loop [OF assms(1)] show ?thesis
    by (simp add: run_def)
qed

theorem non_mapping_result_raises_runtime_error_witness:
  "run broken_pipeline broken_inputs = Inl (PipelineRuntimeError ''comp'')"
proof -
  have sel: "next_ready broken_pipeline broken_inputs (init_state broken_pipeline)
      = Some (''comp'', BrokenComponent)"
    by (simp add: broken_pipeline_def broken_inputs_def BrokenComponent_def init_state_def
        next_ready_def is_ready_def collected_inputs_def map_add_def)
  show ?thesis
    using non_mapping_result_raises_runtime_error
      [of broken_pipeline broken_inputs 0 "init_state broken_pipeline" "''comp''"
          BrokenComponent "VInt 1"]
      sel
    by (simp add: broken_pipeline_def BrokenComponent_def init_state_def)
qed

subsection \<open>Exclusive ownership of a component instance\<close>

text \<open>
  C7. \<open>add_component\<close> fails with \<open>PipelineError\<close> whenever the name already exists in the
  graph, and whenever the instance already belongs to another graph. After a successful
  add the instance belongs to that graph, and adding the same instance to any other graph,
  under any name, fails with \<open>PipelineError\<close>.
\<close>

theorem add_component_exclusive:
  "(cname \<in> fst ` set (components p) \<longrightarrow>
      (\<exists>msg. add_component owners p cname c = Inl (PipelineError msg)))
   \<and> (owners (instance_of c) = Some g \<and> g \<noteq> graph_id p \<longrightarrow>
      (\<exists>msg. add_component owners p cname c = Inl (PipelineError msg)))
   \<and> (add_component owners p cname c = Inr (owners', p') \<longrightarrow>
        owners' (instance_of c) = Some (graph_id p)
        \<and> components p' = components p @ [(cname, c)]
        \<and> (\<forall>q cname' c'. graph_id q \<noteq> graph_id p \<and> instance_of c' = instance_of c \<longrightarrow>
              (\<exists>msg. add_component owners' q cname' c' = Inl (PipelineError msg))))"
proof -
  have dup: "cname \<in> fst ` set (components p) \<longrightarrow>
      (\<exists>msg. add_component owners p cname c = Inl (PipelineError msg))"
    by (simp add: add_component_def)
  have owned: "owners (instance_of c) = Some g \<and> g \<noteq> graph_id p \<longrightarrow>
      (\<exists>msg. add_component owners p cname c = Inl (PipelineError msg))"
    by (simp add: add_component_def)
  have after: "owners' (instance_of c) = Some (graph_id p)
      \<and> components p' = components p @ [(cname, c)]
      \<and> (\<forall>q cname' c'. graph_id q \<noteq> graph_id p \<and> instance_of c' = instance_of c \<longrightarrow>
            (\<exists>msg. add_component owners' q cname' c' = Inl (PipelineError msg)))"
    if ok: "add_component owners p cname c = Inr (owners', p')"
  proof -
    from ok have o': "owners' = owners(instance_of c \<mapsto> graph_id p)"
      and p': "p' = p\<lparr>components := components p @ [(cname, c)]\<rparr>"
      by (auto simp: add_component_def split: if_splits)
    have "\<exists>msg. add_component owners' q cname' c' = Inl (PipelineError msg)"
      if "graph_id q \<noteq> graph_id p \<and> instance_of c' = instance_of c"
      for q :: pipeline and cname' :: string and c' :: component
    proof -
      from that have "owners' (instance_of c') = Some (graph_id p)"
        and "graph_id p \<noteq> graph_id q"
        by (auto simp: o')
      then show ?thesis by (simp add: add_component_def)
    qed
    then show ?thesis by (simp add: o' p')
  qed
  from dup owned after show ?thesis by blast
qed

theorem add_component_exclusive_witness:
  "\<exists>owners' first_pipe.
      add_component Map.empty (Pipeline 1 100) ''some'' some_component
        = Inr (owners', first_pipe)
      \<and> owners' (instance_of some_component) = Some 1
      \<and> (\<exists>msg. add_component owners' (Pipeline 2 100) ''some'' some_component
            = Inl (PipelineError msg))
      \<and> (\<exists>msg. add_component owners' first_pipe ''some'' (FakeComponent 5)
            = Inl (PipelineError msg))"
proof -
  obtain owners' first_pipe where ok:
    "add_component Map.empty (Pipeline 1 100) ''some'' some_component = Inr (owners', first_pipe)"
    by (simp add: add_component_def Pipeline_def)
  from add_component_exclusive
    [of "''some''" "Pipeline 1 100" Map.empty some_component _ owners' first_pipe] ok
  have own: "owners' (instance_of some_component) = Some 1"
    and other: "\<exists>msg. add_component owners' (Pipeline 2 100) ''some'' some_component
      = Inl (PipelineError msg)"
    and comps: "components first_pipe = [(''some'', some_component)]"
    by (simp_all add: Pipeline_def)
  from comps add_component_exclusive [of "''some''" first_pipe owners' "FakeComponent 5"]
  have "\<exists>msg. add_component owners' first_pipe ''some'' (FakeComponent 5)
      = Inl (PipelineError msg)"
    by simp
  with ok own other show ?thesis by blast
qed

end
